theory Spec2Isabelle
  imports Main "HOL-Library.Signed_Division"
begin

section \<open>Go runtime: machine integers and run-time panics\<close>

text \<open>
  The load balancer of \<^verbatim>\<open>src/loadbalancer.go\<close> (the second program of the file, lines
  41 to 243) keeps its rotation cursor in a Go \<^verbatim>\<open>int\<close>. On the 64-bit platforms a Go
  \<^verbatim>\<open>int\<close> is a 64-bit two's complement integer: \<^verbatim>\<open>+\<close> wraps around silently,
  \<^verbatim>\<open>%\<close> truncates towards zero (the remainder has the sign of the dividend) and panics
  on a zero divisor, and indexing a slice outside \<open>[0, len)\<close> panics. Integers are
  modelled as \<open>int\<close> with the wrap-around written out; a panic is a value.
\<close>

datatype panic = DivideByZero | IndexOutOfRange

definition go_int :: "int \<Rightarrow> int" where
  "go_int x = signed_take_bit 63 x"

definition go_add :: "int \<Rightarrow> int \<Rightarrow> int" where
  "go_add a b = go_int (a + b)"

definition go_rem :: "int \<Rightarrow> int \<Rightarrow> panic + int" where
  "go_rem a b = (if b = 0 then Inl DivideByZero else Inr (a smod b))"

definition index :: "'a list \<Rightarrow> int \<Rightarrow> panic + 'a" where
  "index xs i =
     (if 0 \<le> i \<and> i < int (length xs) then Inr (xs ! nat i) else Inl IndexOutOfRange)"

section \<open>Data model\<close>

text \<open>
  \<^verbatim>\<open>url.Parse\<close> belongs to Go's standard library, not to the repository: it is a
  parameter \<open>url_Parse :: string \<Rightarrow> 'u option\<close> of the model, \<open>None\<close> standing for
  \<^verbatim>\<open>err != nil\<close> and \<open>'u\<close> for the parsed \<^verbatim>\<open>*url.URL\<close>. A reverse proxy is
  determined by the target it was created for. The model is sequential: it has no field
  for the two mutexes, and a method body runs from its first line to its return.
\<close>

datatype 'u ReverseProxy = NewSingleHostReverseProxy 'u

record 'u Backend =
  URL :: string
  Proxy :: "'u ReverseProxy"
  Alive :: bool

text \<open>
  \<^verbatim>\<open>backends []*Backend\<close>: \<^verbatim>\<open>NewLoadBalancer\<close>, the only constructor, allocates one
  fresh \<^verbatim>\<open>Backend\<close> for every slot, so the pointers of the slice are pairwise distinct
  and never nil. The pointer \<^verbatim>\<open>lb.backends[k]\<close> is represented by its position \<open>k\<close>,
  and the object it points to is the \<open>k\<close>-th element of the list.
\<close>

record 'u LoadBalancer =
  backends :: "'u Backend list"
  current :: int

definition SetAlive :: "bool \<Rightarrow> 'u Backend \<Rightarrow> 'u Backend" where
  "SetAlive alive b = b\<lparr>Alive := alive\<rparr>"

definition IsAlive :: "'u Backend \<Rightarrow> bool" where
  "IsAlive b = Alive b"

text \<open>\<^verbatim>\<open>lb.backends[k].SetAlive(alive)\<close>: the write through the \<open>k\<close>-th pointer.\<close>

definition SetAlive_at :: "nat \<Rightarrow> bool \<Rightarrow> 'u LoadBalancer \<Rightarrow> 'u LoadBalancer" where
  "SetAlive_at k alive lb =
     (if k < length (backends lb)
      then lb\<lparr>backends := (backends lb)[k := SetAlive alive (backends lb ! k)]\<rparr>
      else lb)"

section \<open>Selection: \<^verbatim>\<open>getNextBackend\<close>\<close>

text \<open>
  The loop \<^verbatim>\<open>for i := 0; i < len(lb.backends); i++\<close> of lines 112 to 119, entered at
  counter \<open>i\<close>. The result is the panic raised, or the pointer returned (\<open>None\<close> is
  \<^verbatim>\<open>nil\<close>, \<open>Some k\<close> is \<^verbatim>\<open>lb.backends[k]\<close>), together with the pool afterwards. A panic
  leaves the pool as it was: the cursor is written only on line 116, after both the
  remainder and the index have been computed, and the deferred \<^verbatim>\<open>Unlock\<close> releases the
  mutex. The counter satisfies \<open>i < len\<close> when it is incremented, so \<^verbatim>\<open>i++\<close> cannot
  wrap.
\<close>

function getNextBackend_loop ::
  "'u LoadBalancer \<Rightarrow> int \<Rightarrow> (panic + nat option) \<times> 'u LoadBalancer" where
  "getNextBackend_loop lb i =
     (if i < int (length (backends lb)) then
        (case go_rem (go_add (current lb) i) (int (length (backends lb))) of
           Inl p \<Rightarrow> (Inl p, lb)
         | Inr idx \<Rightarrow>
             (case index (backends lb) idx of
                Inl p \<Rightarrow> (Inl p, lb)
              | Inr b \<Rightarrow>
                  if IsAlive b then
                    (case go_rem (go_add idx 1) (int (length (backends lb))) of
                       Inl p \<Rightarrow> (Inl p, lb)
                     | Inr c \<Rightarrow> (Inr (Some (nat idx)), lb\<lparr>current := c\<rparr>))
                  else getNextBackend_loop lb (i + 1)))
      else (Inr None, lb))"
  by pat_completeness auto
termination
  by (relation "measure (\<lambda>(lb, i). nat (int (length (backends lb)) - i))") auto

declare getNextBackend_loop.simps [simp del]

definition getNextBackend :: "'u LoadBalancer \<Rightarrow> (panic + nat option) \<times> 'u LoadBalancer" where
  "getNextBackend lb = getNextBackend_loop lb 0"

text \<open>
  The invariant of the data model: the cursor is an index of the pool.
\<close>

definition cursor_in_range :: "'u LoadBalancer \<Rightarrow> bool" where
  "cursor_in_range lb \<longleftrightarrow> 0 \<le> current lb \<and> current lb < int (length (backends lb))"

text \<open>
  Consecutive calls: \<open>getNextBackend_times m lb\<close> calls \<^verbatim>\<open>getNextBackend\<close> \<open>m\<close>
  times in a row and collects what each call returned, first call first.
\<close>

fun getNextBackend_times ::
  "nat \<Rightarrow> 'u LoadBalancer \<Rightarrow> (panic + nat option) list \<times> 'u LoadBalancer" where
  "getNextBackend_times 0 lb = ([], lb)"
| "getNextBackend_times (Suc m) lb =
     (let (r, lb') = getNextBackend lb;
          (rs, lb'') = getNextBackend_times m lb'
      in (r # rs, lb''))"

text \<open>
  Calls of \<^verbatim>\<open>getNextBackend\<close> with writes of liveness flags between them. The two
  methods are the only code that changes a pool after its construction (the health check
  writes the flags through \<^verbatim>\<open>SetAlive\<close>). \<open>run acts lb\<close> performs the actions in order
  and collects what the calls of \<^verbatim>\<open>getNextBackend\<close> returned.
\<close>

datatype action = Call_getNextBackend | Call_SetAlive nat bool

fun run :: "action list \<Rightarrow> 'u LoadBalancer \<Rightarrow> (panic + nat option) list \<times> 'u LoadBalancer" where
  "run [] lb = ([], lb)"
| "run (Call_getNextBackend # as) lb =
     (let (r, lb') = getNextBackend lb;
          (rs, lb'') = run as lb'
      in (r # rs, lb''))"
| "run (Call_SetAlive k alive # as) lb = run as (SetAlive_at k alive lb)"

section \<open>Log output\<close>

text \<open>
  One constructor for every \<^verbatim>\<open>log.Printf\<close> and \<^verbatim>\<open>log.Println\<close> of the functions
  modelled here, with the values it formats. The error value of a failed parse or probe
  and the measured duration of a request are not part of the model. A
  \<^verbatim>\<open>time.Duration\<close> is its number of nanoseconds.
\<close>

datatype log_line =
    Error_FailedToParseURL string
  | Info_AddedBackend string
  | Error_AllBackendsDown string string
  | Info_ForwardingRequest string string string
  | Info_RequestCompleted string
  | Info_RunningHealthChecks
  | Warn_HealthCheckFailed string
  | Warn_BackendReturnedStatus string int
  | Info_BackendRecovered string
  | Info_HealthCheckComplete nat nat
  | Info_StartingHealthChecks int
  | Info_ListeningOn string
  | Info_ConfiguredBackends nat

section \<open>Construction: \<^verbatim>\<open>NewLoadBalancer\<close> and the start of \<^verbatim>\<open>main\<close>\<close>

text \<open>
  The body of the \<^verbatim>\<open>range backendURLs\<close> loop (lines 87 to 102): an address that does
  not parse is logged and skipped by \<^verbatim>\<open>continue\<close>; one that parses is appended, alive.
\<close>

definition NewLoadBalancer_step ::
  "(string \<Rightarrow> 'u option) \<Rightarrow> 'u LoadBalancer \<times> log_line list \<Rightarrow> string
     \<Rightarrow> 'u LoadBalancer \<times> log_line list" where
  "NewLoadBalancer_step url_Parse s backendURL =
     (case s of (lb, out) \<Rightarrow>
        (case url_Parse backendURL of
           None \<Rightarrow> (lb, out @ [Error_FailedToParseURL backendURL])
         | Some parsedURL \<Rightarrow>
             (lb\<lparr>backends := backends lb @
                   [\<lparr>URL = backendURL, Proxy = NewSingleHostReverseProxy parsedURL,
                     Alive = True\<rparr>]\<rparr>,
              out @ [Info_AddedBackend backendURL])))"

definition NewLoadBalancer ::
  "(string \<Rightarrow> 'u option) \<Rightarrow> string list \<Rightarrow> 'u LoadBalancer \<times> log_line list" where
  "NewLoadBalancer url_Parse backendURLs =
     foldl (NewLoadBalancer_step url_Parse) (\<lparr>backends = [], current = 0\<rparr>, []) backendURLs"

text \<open>
  What one iteration appends for an address (lines 87 to 100), if it appends anything:
  the backend bound to the proxy of the parsed address, alive.
\<close>

definition new_backend :: "(string \<Rightarrow> 'u option) \<Rightarrow> string \<Rightarrow> 'u Backend option" where
  "new_backend url_Parse backendURL =
     map_option (\<lambda>parsedURL. \<lparr>URL = backendURL, Proxy = NewSingleHostReverseProxy parsedURL,
                               Alive = True\<rparr>) (url_Parse backendURL)"

text \<open>\<^verbatim>\<open>strings.Split(s, sep)\<close> for a separator of one character.\<close>

fun strings_Split :: "string \<Rightarrow> char \<Rightarrow> string list" where
  "strings_Split [] sep = [[]]"
| "strings_Split (c # cs) sep =
     (if c = sep then [] # strings_Split cs sep
      else (case strings_Split cs sep of
              [] \<Rightarrow> [[c]]
            | w # ws \<Rightarrow> (c # w) # ws))"

text \<open>
  \<^verbatim>\<open>main\<close> from the two environment variables up to line 223: every \<^verbatim>\<open>log.Fatal\<close>
  ends the process, and \<open>Inr lb\<close> is the pool with which \<^verbatim>\<open>main\<close> goes on to the first
  health check, the tickers and \<^verbatim>\<open>http.ListenAndServe\<close>.
\<close>

datatype fatal = Fatal_BackendURLsNotSet | Fatal_PortNotSet | Fatal_NoValidBackends

definition main_startup ::
  "(string \<Rightarrow> 'u option) \<Rightarrow> string \<Rightarrow> string \<Rightarrow> fatal + 'u LoadBalancer" where
  "main_startup url_Parse Port backendsEnv =
     (if backendsEnv = [] then Inl Fatal_BackendURLsNotSet
      else if Port = [] then Inl Fatal_PortNotSet
      else
        (let backendURLs = strings_Split backendsEnv CHR '','';
             lb = fst (NewLoadBalancer url_Parse backendURLs)
         in if length (backends lb) = 0 then Inl Fatal_NoValidBackends else Inr lb))"

section \<open>Health checks: \<^verbatim>\<open>healthCheck\<close>\<close>

text \<open>
  What \<^verbatim>\<open>http.Get(backend.URL)\<close> yields: an error and no response, or a response with
  its status code. The network is outside the program, so the outcomes of the probes of
  one cycle are an input: \<open>http_Get k\<close> is the outcome of the probe sent to the backend
  in slot \<open>k\<close>.
\<close>

datatype probe = TransportError | Response int

definition StatusOK :: int where
  "StatusOK = 200"

definition StatusServiceUnavailable :: int where
  "StatusServiceUnavailable = 503"

text \<open>
  The body of the \<^verbatim>\<open>range lb.backends\<close> loop (lines 149 to 167) for one backend: the
  lines it logs, the backend afterwards and the new \<^verbatim>\<open>aliveCount\<close>. The counter never
  exceeds the number of backends, so it cannot wrap.
\<close>

definition healthCheck_step ::
  "probe \<Rightarrow> 'u Backend \<Rightarrow> nat \<Rightarrow> log_line list \<times> 'u Backend \<times> nat" where
  "healthCheck_step res backend aliveCount =
     (case res of
        TransportError \<Rightarrow>
          ([Warn_HealthCheckFailed (URL backend)], SetAlive False backend, aliveCount)
      | Response StatusCode \<Rightarrow>
          if StatusCode \<noteq> StatusOK then
            ([Warn_BackendReturnedStatus (URL backend) StatusCode],
             SetAlive False backend, aliveCount)
          else
            ((if \<not> IsAlive backend then [Info_BackendRecovered (URL backend)] else []),
             SetAlive True backend, aliveCount + 1))"

fun healthCheck_loop ::
  "(nat \<Rightarrow> probe) \<Rightarrow> nat \<Rightarrow> 'u Backend list \<Rightarrow> nat
     \<Rightarrow> log_line list \<times> 'u Backend list \<times> nat" where
  "healthCheck_loop http_Get k [] aliveCount = ([], [], aliveCount)"
| "healthCheck_loop http_Get k (backend # rest) aliveCount =
     (let (out, backend', aliveCount') = healthCheck_step (http_Get k) backend aliveCount;
          (outs, rest', aliveCount'') = healthCheck_loop http_Get (Suc k) rest aliveCount'
      in (out @ outs, backend' # rest', aliveCount''))"

definition healthCheck ::
  "(nat \<Rightarrow> probe) \<Rightarrow> 'u LoadBalancer \<Rightarrow> log_line list \<times> 'u LoadBalancer" where
  "healthCheck http_Get lb =
     (let (outs, backends', aliveCount) = healthCheck_loop http_Get 0 (backends lb) 0
      in ([Info_RunningHealthChecks] @ outs @
            [Info_HealthCheckComplete aliveCount (length (backends lb))],
          lb\<lparr>backends := backends'\<rparr>))"

definition is_recovery :: "log_line \<Rightarrow> bool" where
  "is_recovery l = (case l of Info_BackendRecovered u \<Rightarrow> True | _ \<Rightarrow> False)"

section \<open>Request handling: \<^verbatim>\<open>ServeHTTP\<close>\<close>

text \<open>
  A request is its method and path, the two parts the handler reads. What the handler
  does to the outside is a sequence of effects: a line logged, a call of
  \<^verbatim>\<open>http.Error(w, msg, code)\<close>, or a call of \<^verbatim>\<open>Proxy.ServeHTTP(w, r)\<close> on the proxy of
  one backend, which forwards the request. A panic of \<^verbatim>\<open>getNextBackend\<close> propagates out
  of the handler before any effect.
\<close>

record Request =
  Method :: string
  Path :: string

datatype 'u effect =
    Log log_line
  | http_Error string int
  | Proxy_ServeHTTP "'u ReverseProxy" Request

definition ServeHTTP ::
  "Request \<Rightarrow> 'u LoadBalancer \<Rightarrow> (panic + 'u effect list) \<times> 'u LoadBalancer" where
  "ServeHTTP r lb =
     (case getNextBackend lb of
        (Inl p, lb') \<Rightarrow> (Inl p, lb')
      | (Inr None, lb') \<Rightarrow>
          (Inr [Log (Error_AllBackendsDown (Method r) (Path r)),
                http_Error ''Service unavailable - all backends are down''
                  StatusServiceUnavailable],
           lb')
      | (Inr (Some k), lb') \<Rightarrow>
          (let selectedBackend = backends lb' ! k
           in (Inr [Log (Info_ForwardingRequest (URL selectedBackend) (Method r) (Path r)),
                    Proxy_ServeHTTP (Proxy selectedBackend) r,
                    Log (Info_RequestCompleted (URL selectedBackend))],
               lb')))"

definition forwards :: "'u effect list \<Rightarrow> ('u ReverseProxy \<times> Request) list" where
  "forwards es = concat (map (\<lambda>e. case e of Proxy_ServeHTTP p r \<Rightarrow> [(p, r)] | _ \<Rightarrow> []) es)"

section \<open>Start of the service: \<^verbatim>\<open>startHealthChecks\<close> and the rest of \<^verbatim>\<open>main\<close>\<close>








section \<open>Go arithmetic inside the range of \<^verbatim>\<open>int\<close>\<close>

lemma go_int_id: "- (2 ^ 63) \<le> x \<Longrightarrow> x < 2 ^ 63 \<Longrightarrow> go_int x = x"
  unfolding go_int_def by (rule signed_take_bit_int_eq_self)

lemma smod_nonneg: "0 \<le> a \<Longrightarrow> 0 < b \<Longrightarrow> a smod b = a mod (b::int)"
  by (simp add: signed_modulo_int_def sgn_if)

lemma go_add_id: "0 \<le> a \<Longrightarrow> 0 \<le> b \<Longrightarrow> a + b < 2 ^ 63 \<Longrightarrow> go_add a b = a + b"
  unfolding go_add_def by (rule go_int_id) simp_all

lemma smod_in_range: "0 \<le> a \<Longrightarrow> 0 < b \<Longrightarrow> 0 \<le> a smod b \<and> a smod b < (b::int)"
  by (simp add: smod_nonneg)

section \<open>Induction along the loop counter\<close>

lemma int_upto_induct:
  assumes step: "\<And>i::int. (i < n \<Longrightarrow> P (i + 1)) \<Longrightarrow> P i"
  shows "P i"
proof (induction "nat (n - i)" arbitrary: i)
  case 0
  then have "\<not> i < n" by simp
  then show ?case by (simp add: step)
next
  case (Suc k)
  then have "k = nat (n - (i + 1))" by simp
  then have "P (i + 1)" by (rule Suc.hyps(1))
  then show ?case by (rule step)
qed

section \<open>One iteration of the scan\<close>

lemma loop_exit:
  "\<not> i < int (length (backends lb)) \<Longrightarrow> getNextBackend_loop lb i = (Inr None, lb)"
  by (subst getNextBackend_loop.simps) simp

lemma loop_div_zero:
  "i < int (length (backends lb)) \<Longrightarrow> backends lb = [] \<Longrightarrow>
     getNextBackend_loop lb i = (Inl DivideByZero, lb)"
  by (subst getNextBackend_loop.simps) (simp add: go_rem_def)

lemma loop_out_of_range:
  assumes "i < int (length (backends lb))" and "backends lb \<noteq> []"
    and "idx = go_add (current lb) i smod int (length (backends lb))"
    and "\<not> (0 \<le> idx \<and> idx < int (length (backends lb)))"
  shows "getNextBackend_loop lb i = (Inl IndexOutOfRange, lb)"
  using assms by (subst getNextBackend_loop.simps) (auto simp: go_rem_def index_def)

lemma loop_found:
  assumes "i < int (length (backends lb))"
    and "idx = go_add (current lb) i smod int (length (backends lb))"
    and "0 \<le> idx" and "idx < int (length (backends lb))"
    and "Alive (backends lb ! nat idx)"
  shows "getNextBackend_loop lb i =
           (Inr (Some (nat idx)),
            lb\<lparr>current := go_add idx 1 smod int (length (backends lb))\<rparr>)"
proof -
  from assms(3,4) have "int (length (backends lb)) \<noteq> 0" by linarith
  with assms show ?thesis
    by (subst getNextBackend_loop.simps) (simp add: go_rem_def index_def IsAlive_def)
qed

lemma loop_skip:
  assumes "i < int (length (backends lb))"
    and "idx = go_add (current lb) i smod int (length (backends lb))"
    and "0 \<le> idx" and "idx < int (length (backends lb))"
    and "\<not> Alive (backends lb ! nat idx)"
  shows "getNextBackend_loop lb i = getNextBackend_loop lb (i + 1)"
proof -
  from assms(3,4) have "int (length (backends lb)) \<noteq> 0" by linarith
  with assms show ?thesis
    by (subst getNextBackend_loop.simps) (simp add: go_rem_def index_def IsAlive_def)
qed

text \<open>The five cases of one iteration, as a case rule.\<close>

lemma loop_cases [case_names exit div_zero out_of_range found skip]:
  fixes lb :: "'u LoadBalancer" and i :: int
  defines "n \<equiv> int (length (backends lb))"
  defines "idx \<equiv> go_add (current lb) i smod n"
  assumes "\<not> i < n \<Longrightarrow> getNextBackend_loop lb i = (Inr None, lb) \<Longrightarrow> P"
    and "i < n \<Longrightarrow> backends lb = [] \<Longrightarrow> getNextBackend_loop lb i = (Inl DivideByZero, lb) \<Longrightarrow> P"
    and "i < n \<Longrightarrow> backends lb \<noteq> [] \<Longrightarrow> \<not> (0 \<le> idx \<and> idx < n) \<Longrightarrow>
           getNextBackend_loop lb i = (Inl IndexOutOfRange, lb) \<Longrightarrow> P"
    and "i < n \<Longrightarrow> 0 \<le> idx \<Longrightarrow> idx < n \<Longrightarrow> Alive (backends lb ! nat idx) \<Longrightarrow>
           getNextBackend_loop lb i =
             (Inr (Some (nat idx)), lb\<lparr>current := go_add idx 1 smod n\<rparr>) \<Longrightarrow> P"
    and "i < n \<Longrightarrow> 0 \<le> idx \<Longrightarrow> idx < n \<Longrightarrow> \<not> Alive (backends lb ! nat idx) \<Longrightarrow>
           getNextBackend_loop lb i = getNextBackend_loop lb (i + 1) \<Longrightarrow> P"
  shows P
proof (cases "i < n")
  case False
  then show P using assms(3) loop_exit [of i lb] by (simp add: n_def)
next
  case lt: True
  show P
  proof (cases "backends lb = []")
    case True
    then show P using lt assms(4) loop_div_zero [of i lb] by (simp add: n_def)
  next
    case ne: False
    show P
    proof (cases "0 \<le> idx \<and> idx < n")
      case False
      then show P
        using lt ne assms(5) loop_out_of_range [of i lb idx] by (simp add: n_def idx_def)
    next
      case True
      then show P
        using lt assms(6,7) loop_found [of i lb idx] loop_skip [of i lb idx]
        by (cases "Alive (backends lb ! nat idx)") (simp_all add: n_def idx_def)
    qed
  qed
qed

text \<open>A pointer returned by the scan is a slot of the pool whose backend is alive.\<close>

lemma getNextBackend_loop_Some:
  "getNextBackend_loop lb i = (Inr (Some j), lb') \<Longrightarrow>
     j < length (backends lb) \<and> Alive (backends lb ! j)"
proof (induction lb i rule: getNextBackend_loop.induct)
  case (1 lb i)
  show ?case
  proof (cases rule: loop_cases [where lb = lb and i = i])
    case found
    with "1.prems" show ?thesis by auto
  next
    case skip
    then have "index (backends lb) (go_add (current lb) i smod int (length (backends lb)))
                 = Inr (backends lb ! nat (go_add (current lb) i smod int (length (backends lb))))"
      by (simp add: index_def)
    moreover from skip have "go_rem (go_add (current lb) i) (int (length (backends lb)))
                 = Inr (go_add (current lb) i smod int (length (backends lb)))"
      by (auto simp: go_rem_def)
    ultimately show ?thesis
      using "1.IH" "1.prems" skip by (simp add: IsAlive_def)
  qed (use "1.prems" in simp_all)
qed

text \<open>Neither method adds, removes or reorders backends.\<close>

lemma getNextBackend_loop_backends:
  "backends (snd (getNextBackend_loop lb i)) = backends lb"
proof (induction i rule: int_upto_induct [where n = "int (length (backends lb))"])
  case (1 i)
  show ?case
    by (cases rule: loop_cases [where lb = lb and i = i]) (use 1 in simp_all)
qed

lemma getNextBackend_backends:
  "backends (snd (getNextBackend lb)) = backends lb"
  by (simp add: getNextBackend_def getNextBackend_loop_backends)

lemma getNextBackend_Some:
  "getNextBackend lb = (Inr (Some j), lb') \<Longrightarrow>
     j < length (backends lb) \<and> Alive (backends lb ! j)"
  unfolding getNextBackend_def by (rule getNextBackend_loop_Some)

lemma SetAlive_at_length:
  "length (backends (SetAlive_at j alive lb)) = length (backends lb)"
  by (simp add: SetAlive_at_def)

lemma SetAlive_at_Alive:
  "k < length (backends lb) \<Longrightarrow>
     Alive (backends (SetAlive_at j alive lb) ! k)
       = (if j = k then alive else Alive (backends lb ! k))"
  by (simp add: SetAlive_at_def SetAlive_def nth_list_update)

section \<open>The scan over a pool with no live backend\<close>

lemma loop_all_dead:
  assumes dead: "\<forall>b \<in> set (backends lb). \<not> Alive b"
    and c0: "0 \<le> current lb"
    and bound: "current lb + int (length (backends lb)) \<le> 2 ^ 63"
  shows "0 \<le> i \<Longrightarrow> getNextBackend_loop lb i = (Inr None, lb)"
proof (induction i rule: int_upto_induct [where n = "int (length (backends lb))"])
  case (1 i)
  let ?n = "int (length (backends lb))"
  let ?idx = "go_add (current lb) i smod ?n"
  have in_range: "0 \<le> ?idx \<and> ?idx < ?n" if "i < ?n"
  proof -
    have "go_add (current lb) i = current lb + i"
      using c0 bound "1.prems" that by (intro go_add_id) simp_all
    moreover have "0 \<le> (current lb + i) smod ?n \<and> (current lb + i) smod ?n < ?n"
      using c0 "1.prems" that by (intro smod_in_range) auto
    ultimately show ?thesis by simp
  qed
  show ?case
  proof (cases rule: loop_cases [where lb = lb and i = i])
    case exit
    then show ?thesis by simp
  next
    case div_zero
    with "1.prems" show ?thesis by simp
  next
    case out_of_range
    with in_range show ?thesis by simp
  next
    case found
    then have "backends lb ! nat ?idx \<in> set (backends lb)" by (intro nth_mem) simp
    with dead found show ?thesis by simp
  next
    case skip
    with "1.IH" "1.prems" show ?thesis by simp
  qed
qed

section \<open>The cursor after a call\<close>

lemma loop_cursor_in_range:
  assumes inv: "cursor_in_range lb" and len: "int (length (backends lb)) < 2 ^ 63"
  shows "cursor_in_range (snd (getNextBackend_loop lb i))"
proof (induction i rule: int_upto_induct [where n = "int (length (backends lb))"])
  case (1 i)
  show ?case
  proof (cases rule: loop_cases [where lb = lb and i = i])
    case found
    let ?n = "int (length (backends lb))"
    let ?idx = "go_add (current lb) i smod ?n"
    have "go_add ?idx 1 = ?idx + 1"
      using found len by (intro go_add_id) simp_all
    moreover have "0 \<le> (?idx + 1) smod ?n \<and> (?idx + 1) smod ?n < ?n"
      using found by (intro smod_in_range) auto
    ultimately show ?thesis
      using found by (simp add: cursor_in_range_def)
  next
    case skip
    with "1.IH" show ?thesis by simp
  qed (use inv in simp_all)
qed

lemma NewLoadBalancer_current_gen:
  "current (fst (foldl (NewLoadBalancer_step url_Parse) (lb, out) urls)) = current lb"
  by (induction urls arbitrary: lb out)
     (simp_all add: NewLoadBalancer_step_def split: option.splits)

section \<open>Rotation over a pool whose backends are all alive\<close>

lemma getNextBackend_all_alive:
  assumes alive: "\<forall>b \<in> set (backends lb). Alive b"
    and inv: "cursor_in_range lb" and len: "int (length (backends lb)) < 2 ^ 63"
  shows "getNextBackend lb =
           (Inr (Some (nat (current lb))),
            lb\<lparr>current := (current lb + 1) mod int (length (backends lb))\<rparr>)"
proof -
  let ?n = "int (length (backends lb))"
  from inv have c: "0 \<le> current lb" "current lb < ?n"
    by (simp_all add: cursor_in_range_def)
  from c have npos: "0 < ?n" by linarith
  have "go_add (current lb) 0 = current lb + 0"
    using c len by (intro go_add_id) simp_all
  then have idx: "go_add (current lb) 0 smod ?n = current lb"
    using c npos by (simp add: smod_nonneg)
  have "go_add (current lb) 1 = current lb + 1"
    using c len by (intro go_add_id) simp_all
  then have nxt: "go_add (current lb) 1 smod ?n = (current lb + 1) mod ?n"
    using c npos by (simp add: smod_nonneg)
  have "backends lb ! nat (current lb) \<in> set (backends lb)"
    using c by (intro nth_mem) simp
  with alive have "Alive (backends lb ! nat (current lb))" by simp
  then show ?thesis
    unfolding getNextBackend_def
    using loop_found [of 0 lb "current lb"] c npos idx nxt by simp
qed

lemma times_all_alive:
  assumes alive: "\<forall>b \<in> set (backends lb). Alive b"
    and inv: "cursor_in_range lb" and len: "int (length (backends lb)) < 2 ^ 63"
  shows "getNextBackend_times m lb =
           (map (\<lambda>j. Inr (Some ((nat (current lb) + j) mod length (backends lb)))) [0..<m],
            lb\<lparr>current := int ((nat (current lb) + m) mod length (backends lb))\<rparr>)"
  using assms
proof (induction m arbitrary: lb)
  case 0
  then have "nat (current lb) < length (backends lb)" "0 \<le> current lb"
    by (simp_all add: cursor_in_range_def nat_less_iff)
  then show ?case by simp
next
  case (Suc m)
  let ?N = "length (backends lb)"
  let ?c = "nat (current lb)"
  let ?lb' = "lb\<lparr>current := (current lb + 1) mod int ?N\<rparr>"
  from Suc.prems(2) have c: "0 \<le> current lb" "current lb < int ?N"
    by (simp_all add: cursor_in_range_def)
  have first: "getNextBackend lb = (Inr (Some ?c), ?lb')"
    using Suc.prems by (rule getNextBackend_all_alive)
  have c': "nat (current ?lb') = (?c + 1) mod ?N"
    using c by (simp add: nat_mod_distrib nat_add_distrib)
  from c have npos: "0 < int ?N" by linarith
  have inv': "cursor_in_range ?lb'"
    using npos by (simp add: cursor_in_range_def)
  have rest: "getNextBackend_times m ?lb' =
      (map (\<lambda>j. Inr (Some ((nat (current ?lb') + j) mod length (backends ?lb')))) [0..<m],
       ?lb'\<lparr>current := int ((nat (current ?lb') + m) mod length (backends ?lb'))\<rparr>)"
    using Suc.prems(1,3) inv' by (intro Suc.IH) simp_all
  have shift: "((?c + 1) mod ?N + j) mod ?N = (?c + Suc j) mod ?N" for j
    by (simp add: mod_add_left_eq)
  have "map (\<lambda>j. Inr (Some ((?c + j) mod ?N)) :: panic + nat option) [0..<Suc m] =
        Inr (Some ?c) # map (\<lambda>j. Inr (Some ((?c + Suc j) mod ?N))) [0..<m]"
    using c by (simp add: map_upt_Suc del: upt_Suc)
  then show ?case
    using first rest c' shift by (simp del: upt_Suc)
qed

lemma rotate_eq:
  assumes "i \<le> j" "j < N" "(c + i) mod N = (c + j) mod (N::nat)"
  shows "i = j"
proof -
  have "N dvd (c + j) - (c + i)"
    using assms(1,3) by (subst mod_eq_dvd_iff_nat [symmetric]) simp_all
  then have "N dvd j - i" by simp
  moreover have "j - i < N" using assms(2) by simp
  ultimately have "j - i = 0"
    using nat_dvd_not_less [of "j - i" N] by auto
  with assms(1) show ?thesis by simp
qed

lemma inj_on_rotate:
  "inj_on (\<lambda>j. (c + j) mod N) {0..<N::nat}"
proof (rule inj_onI)
  fix i j assume "i \<in> {0..<N}" "j \<in> {0..<N}" "(c + i) mod N = (c + j) mod N"
  then show "i = j"
    using rotate_eq [of i j N c] rotate_eq [of j i N c]
    by (cases "i \<le> j") simp_all
qed

lemma rotate_image:
  "(\<lambda>j. (c + j) mod N) ` {0..<N::nat} = {0..<N}"
proof (rule card_subset_eq)
  show "finite {0..<N}" by simp
  show "(\<lambda>j. (c + j) mod N) ` {0..<N} \<subseteq> {0..<N}" by auto
  show "card ((\<lambda>j. (c + j) mod N) ` {0..<N}) = card {0..<N}"
    by (rule card_image) (rule inj_on_rotate)
qed

lemma count_list_distinct:
  "distinct xs \<Longrightarrow> y \<in> set xs \<Longrightarrow> count_list xs y = 1"
  by (induction xs) (auto simp: count_list_0_iff)

section \<open>Construction keeps the addresses that parse\<close>

lemma NewLoadBalancer_step_None:
  "url_Parse u = None \<Longrightarrow>
     NewLoadBalancer_step url_Parse (lb, out) u = (lb, out @ [Error_FailedToParseURL u])"
  by (simp add: NewLoadBalancer_step_def)

lemma NewLoadBalancer_step_Some:
  "url_Parse u = Some parsedURL \<Longrightarrow>
     NewLoadBalancer_step url_Parse (lb, out) u =
       (lb\<lparr>backends := backends lb @
            [\<lparr>URL = u, Proxy = NewSingleHostReverseProxy parsedURL, Alive = True\<rparr>]\<rparr>,
        out @ [Info_AddedBackend u])"
  by (simp add: NewLoadBalancer_step_def)

lemma NewLoadBalancer_foldl:
  "fst (foldl (NewLoadBalancer_step url_Parse) (lb, out) urls) =
     lb\<lparr>backends := backends lb @ List.map_filter (new_backend url_Parse) urls\<rparr>"
proof (induction urls arbitrary: lb out)
  case Nil
  show ?case by (simp add: List.map_filter_simps)
next
  case (Cons u urls)
  show ?case
    by (cases "url_Parse u")
       (simp_all add: NewLoadBalancer_step_None NewLoadBalancer_step_Some Cons.IH
          List.map_filter_simps new_backend_def)
qed

lemma NewLoadBalancer_backends:
  "fst (NewLoadBalancer url_Parse urls) =
     \<lparr>backends = List.map_filter (new_backend url_Parse) urls, current = 0\<rparr>"
  by (simp add: NewLoadBalancer_def NewLoadBalancer_foldl)

lemma map_filter_empty_iff:
  "List.map_filter f xs = [] \<longleftrightarrow> list_all (\<lambda>x. f x = None) xs"
  by (induction xs) (auto simp: List.map_filter_simps split: option.splits)

section \<open>One health-check cycle\<close>

lemma healthCheck_step_Alive:
  "Alive (fst (snd (healthCheck_step res b c))) = (res = Response StatusOK)"
  by (simp add: healthCheck_step_def SetAlive_def split: probe.splits)

lemma healthCheck_step_URL:
  "URL (fst (snd (healthCheck_step res b c))) = URL b \<and>
   Proxy (fst (snd (healthCheck_step res b c))) = Proxy b"
  by (simp add: healthCheck_step_def SetAlive_def split: probe.splits)

lemma healthCheck_loop_Alive:
  "map Alive (fst (snd (healthCheck_loop http_Get k bs c))) =
     map (\<lambda>j. http_Get j = Response StatusOK) [k..<k + length bs]"
proof (induction bs arbitrary: k c)
  case Nil
  show ?case by simp
next
  case (Cons b bs)
  have "[k..<k + length (b # bs)] = k # [Suc k..<Suc k + length bs]"
    by (simp add: upt_rec)
  then show ?case
    using Cons.IH [of "Suc k"] healthCheck_step_Alive [of "http_Get k" b c]
    by (simp add: split_beta Let_def)
qed

lemma healthCheck_loop_URL:
  "map URL (fst (snd (healthCheck_loop http_Get k bs c))) = map URL bs \<and>
   map Proxy (fst (snd (healthCheck_loop http_Get k bs c))) = map Proxy bs"
proof (induction bs arbitrary: k c)
  case Nil
  show ?case by simp
next
  case (Cons b bs)
  then show ?case
    using healthCheck_step_URL [of "http_Get k" b c]
    by (simp add: split_beta Let_def)
qed

lemma healthCheck_step_recovery:
  "filter is_recovery (fst (healthCheck_step res b c)) =
     (if res = Response StatusOK \<and> \<not> Alive b then [Info_BackendRecovered (URL b)] else [])"
  by (simp add: healthCheck_step_def is_recovery_def IsAlive_def split: probe.splits)

lemma healthCheck_loop_recovery:
  "filter is_recovery (fst (healthCheck_loop http_Get k bs c)) =
     map (\<lambda>(j, b). Info_BackendRecovered (URL b))
       (filter (\<lambda>(j, b). http_Get j = Response StatusOK \<and> \<not> Alive b) (enumerate k bs))"
proof (induction bs arbitrary: k c)
  case Nil
  show ?case by simp
next
  case (Cons b bs)
  show ?case
    using Cons.IH [of "Suc k"] healthCheck_step_recovery [of "http_Get k" b c]
    by (simp add: split_beta Let_def)
qed

section \<open>The health checks of \<^verbatim>\<open>main\<close> and of the ticker goroutine\<close>








section \<open>Properties of the selection\<close>

text \<open>
  Claim C1. Take a pool of \<open>N \<ge> 1\<close> backends, all alive, whose cursor \<open>c\<close> is an index
  of the pool (\<open>N\<close> being a length that a Go \<^verbatim>\<open>int\<close> can hold). Then \<open>N\<close> consecutive
  calls of \<^verbatim>\<open>getNextBackend\<close> return the backends of slots \<open>c, c + 1, \<dots>\<close> modulo \<open>N\<close>
  in this order, every backend exactly once, and after the call that returned slot \<open>s\<close>
  the cursor is \<open>(s + 1) mod N\<close>.
\<close>

theorem round_robin_all_alive:
  assumes "backends lb \<noteq> []"
    and "\<forall>b \<in> set (backends lb). Alive b"
    and "cursor_in_range lb"
    and "int (length (backends lb)) < 2 ^ 63"
  shows "fst (getNextBackend_times (length (backends lb)) lb) =
           map (\<lambda>j. Inr (Some ((nat (current lb) + j) mod length (backends lb))))
             [0..<length (backends lb)] \<and>
         (\<forall>k < length (backends lb).
            count_list (fst (getNextBackend_times (length (backends lb)) lb)) (Inr (Some k)) = 1) \<and>
         (\<forall>j < length (backends lb).
            current (snd (getNextBackend_times (Suc j) lb)) =
              int (((nat (current lb) + j) mod length (backends lb) + 1) mod length (backends lb)))"
proof -
  let ?N = "length (backends lb)"
  let ?c = "nat (current lb)"
  let ?f = "\<lambda>j. (?c + j) mod ?N"
  let ?g = "\<lambda>j. Inr (Some (?f j)) :: panic + nat option"
  note times = times_all_alive [OF assms(2,3,4)]
  have order: "fst (getNextBackend_times ?N lb) = map ?g [0..<?N]"
    by (simp add: times)
  have once: "count_list (fst (getNextBackend_times ?N lb)) (Inr (Some k)) = 1" if "k < ?N" for k
  proof -
    have "inj_on ?g {0..<?N}"
      using inj_on_rotate [of ?c ?N] by (auto simp: inj_on_def)
    then have "distinct (map ?g [0..<?N])"
      by (simp add: distinct_map)
    moreover have "k \<in> ?f ` {0..<?N}"
      using that by (simp only: rotate_image) simp
    then have "Inr (Some k) \<in> set (map ?g [0..<?N])" by auto
    ultimately show ?thesis
      unfolding order by (rule count_list_distinct)
  qed
  have cursor: "current (snd (getNextBackend_times (Suc j) lb)) = int ((?f j + 1) mod ?N)" for j
    by (simp add: times mod_Suc_eq del: getNextBackend_times.simps)
  from order once cursor show ?thesis by blast
qed

theorem round_robin_all_alive_witness:
  "map Alive (backends (\<lparr>backends =
     [\<lparr>URL = ''http://a'', Proxy = NewSingleHostReverseProxy (), Alive = True\<rparr>,
      \<lparr>URL = ''http://b'', Proxy = NewSingleHostReverseProxy (), Alive = True\<rparr>,
      \<lparr>URL = ''http://c'', Proxy = NewSingleHostReverseProxy (), Alive = True\<rparr>],
    current = 1\<rparr>)) = [True, True, True] \<and>
   cursor_in_range (\<lparr>backends =
     [\<lparr>URL = ''http://a'', Proxy = NewSingleHostReverseProxy (), Alive = True\<rparr>,
      \<lparr>URL = ''http://b'', Proxy = NewSingleHostReverseProxy (), Alive = True\<rparr>,
      \<lparr>URL = ''http://c'', Proxy = NewSingleHostReverseProxy (), Alive = True\<rparr>],
    current = 1\<rparr>) \<and>
   fst (getNextBackend_times 3 (\<lparr>backends =
     [\<lparr>URL = ''http://a'', Proxy = NewSingleHostReverseProxy (), Alive = True\<rparr>,
      \<lparr>URL = ''http://b'', Proxy = NewSingleHostReverseProxy (), Alive = True\<rparr>,
      \<lparr>URL = ''http://c'', Proxy = NewSingleHostReverseProxy (), Alive = True\<rparr>],
    current = 1\<rparr>))
     = [Inr (Some 1), Inr (Some 2), Inr (Some 0)] \<and>
   count_list (fst (getNextBackend_times 3 (\<lparr>backends =
     [\<lparr>URL = ''http://a'', Proxy = NewSingleHostReverseProxy (), Alive = True\<rparr>,
      \<lparr>URL = ''http://b'', Proxy = NewSingleHostReverseProxy (), Alive = True\<rparr>,
      \<lparr>URL = ''http://c'', Proxy = NewSingleHostReverseProxy (), Alive = True\<rparr>],
    current = 1\<rparr>))) (Inr (Some 0)) = 1 \<and>
   current (snd (getNextBackend_times (Suc 1) (\<lparr>backends =
     [\<lparr>URL = ''http://a'', Proxy = NewSingleHostReverseProxy (), Alive = True\<rparr>,
      \<lparr>URL = ''http://b'', Proxy = NewSingleHostReverseProxy (), Alive = True\<rparr>,
      \<lparr>URL = ''http://c'', Proxy = NewSingleHostReverseProxy (), Alive = True\<rparr>],
    current = 1\<rparr>))) = 0"
proof -
  let ?lb = "\<lparr>backends =
     [\<lparr>URL = ''http://a'', Proxy = NewSingleHostReverseProxy (), Alive = True\<rparr>,
      \<lparr>URL = ''http://b'', Proxy = NewSingleHostReverseProxy (), Alive = True\<rparr>,
      \<lparr>URL = ''http://c'', Proxy = NewSingleHostReverseProxy (), Alive = True\<rparr>],
    current = 1\<rparr>"
  have h1: "backends ?lb \<noteq> []" by simp
  have h2: "\<forall>b \<in> set (backends ?lb). Alive b" by simp
  have h3: "cursor_in_range ?lb" by (simp add: cursor_in_range_def)
  have h4: "int (length (backends ?lb)) < 2 ^ 63" by simp
  have len: "length (backends ?lb) = 3" by simp
  note rr = round_robin_all_alive [OF h1 h2 h3 h4, unfolded len]
  have order: "fst (getNextBackend_times 3 ?lb) = [Inr (Some 1), Inr (Some 2), Inr (Some 0)]"
    using rr [THEN conjunct1] by (simp add: upt_rec)
  have once: "count_list (fst (getNextBackend_times 3 ?lb)) (Inr (Some 0)) = 1"
    using rr [THEN conjunct2, THEN conjunct1, rule_format, of 0] by simp
  have cursor: "current (snd (getNextBackend_times (Suc 1) ?lb)) = 0"
    using rr [THEN conjunct2, THEN conjunct2, rule_format, of 1]
    by (simp del: getNextBackend_times.simps)
  from h3 order once cursor show ?thesis
    by (simp del: getNextBackend_times.simps)
qed

text \<open>
  Claim C2. If the backend of slot \<open>k\<close> is not alive, then no call of
  \<^verbatim>\<open>getNextBackend\<close> returns it, whatever the cursor is and however many calls follow,
  interleaved with any writes of liveness flags, as long as none of these writes sets
  the flag of slot \<open>k\<close> to true.
\<close>

theorem dead_backend_never_selected:
  assumes "k < length (backends lb)" and "\<not> Alive (backends lb ! k)"
    and "Call_SetAlive k True \<notin> set acts"
  shows "Inr (Some k) \<notin> set (fst (run acts lb))"
  using assms
proof (induction acts lb rule: run.induct)
  case (1 lb)
  show ?case by simp
next
  case (2 as lb)
  obtain r lb' where r: "getNextBackend lb = (r, lb')" by (cases "getNextBackend lb")
  then have bs: "backends lb' = backends lb"
    using getNextBackend_backends [of lb] by simp
  have "r \<noteq> Inr (Some k)"
    using getNextBackend_Some [of lb k lb'] r "2.prems"(2) by auto
  moreover have "Inr (Some k) \<notin> set (fst (run as lb'))"
    using "2.IH" [OF r [symmetric]] "2.prems" bs by simp
  ultimately show ?case
    using r by (cases "run as lb'") simp
next
  case (3 j alive as lb)
  have "\<not> Alive (backends (SetAlive_at j alive lb) ! k)"
    using "3.prems" by (auto simp: SetAlive_at_Alive)
  then show ?case
    using "3.IH" "3.prems" by (simp add: SetAlive_at_length)
qed

theorem dead_backend_never_selected_witness:
  "(1::nat) < length (backends (\<lparr>backends =
     [\<lparr>URL = ''http://a'', Proxy = NewSingleHostReverseProxy (), Alive = True\<rparr>,
      \<lparr>URL = ''http://b'', Proxy = NewSingleHostReverseProxy (), Alive = False\<rparr>,
      \<lparr>URL = ''http://c'', Proxy = NewSingleHostReverseProxy (), Alive = True\<rparr>],
    current = 0\<rparr>)) \<and>
   \<not> Alive (backends (\<lparr>backends =
     [\<lparr>URL = ''http://a'', Proxy = NewSingleHostReverseProxy (), Alive = True\<rparr>,
      \<lparr>URL = ''http://b'', Proxy = NewSingleHostReverseProxy (), Alive = False\<rparr>,
      \<lparr>URL = ''http://c'', Proxy = NewSingleHostReverseProxy (), Alive = True\<rparr>],
    current = 0\<rparr>) ! 1) \<and>
   Call_SetAlive 1 True \<notin>
     set [Call_getNextBackend, Call_getNextBackend, Call_SetAlive 0 False,
          Call_getNextBackend, Call_SetAlive 1 False, Call_getNextBackend] \<and>
   Inr (Some 1) \<notin>
     set (fst (run [Call_getNextBackend, Call_getNextBackend, Call_SetAlive 0 False,
                    Call_getNextBackend, Call_SetAlive 1 False, Call_getNextBackend]
                (\<lparr>backends =
     [\<lparr>URL = ''http://a'', Proxy = NewSingleHostReverseProxy (), Alive = True\<rparr>,
      \<lparr>URL = ''http://b'', Proxy = NewSingleHostReverseProxy (), Alive = False\<rparr>,
      \<lparr>URL = ''http://c'', Proxy = NewSingleHostReverseProxy (), Alive = True\<rparr>],
    current = 0\<rparr>)))"
proof -
  let ?lb = "\<lparr>backends =
     [\<lparr>URL = ''http://a'', Proxy = NewSingleHostReverseProxy (), Alive = True\<rparr>,
      \<lparr>URL = ''http://b'', Proxy = NewSingleHostReverseProxy (), Alive = False\<rparr>,
      \<lparr>URL = ''http://c'', Proxy = NewSingleHostReverseProxy (), Alive = True\<rparr>],
    current = 0\<rparr>"
  let ?acts = "[Call_getNextBackend, Call_getNextBackend, Call_SetAlive 0 False,
                Call_getNextBackend, Call_SetAlive 1 False, Call_getNextBackend]"
  have h1: "1 < length (backends ?lb)" by simp
  have h2: "\<not> Alive (backends ?lb ! 1)" by simp
  have h3: "Call_SetAlive 1 True \<notin> set ?acts" by simp
  from dead_backend_never_selected [OF h1 h2 h3] h1 h2 h3 show ?thesis by blast
qed

text \<open>
  Claim C3. If no backend of the pool is alive, every call of \<^verbatim>\<open>getNextBackend\<close>
  returns \<^verbatim>\<open>nil\<close> and leaves the pool, and so the cursor, as it was: \<open>m\<close> consecutive
  calls return \<open>m\<close> times \<^verbatim>\<open>nil\<close>. The cursor is not negative and the sums
  \<^verbatim>\<open>lb.current + i\<close> of the scan stay inside the range of \<^verbatim>\<open>int\<close>, as they do for
  every cursor that is an index of a pool of at most \<open>2 ^ 62\<close> backends.
\<close>

theorem all_dead_returns_nil:
  assumes "\<forall>b \<in> set (backends lb). \<not> Alive b"
    and "0 \<le> current lb"
    and "current lb + int (length (backends lb)) \<le> 2 ^ 63"
  shows "getNextBackend_times m lb = (replicate m (Inr None), lb)"
proof (induction m)
  case 0
  show ?case by simp
next
  case (Suc m)
  have "getNextBackend lb = (Inr None, lb)"
    unfolding getNextBackend_def using assms by (intro loop_all_dead) simp_all
  with Suc show ?case by simp
qed

theorem all_dead_returns_nil_witness:
  "map Alive (backends (\<lparr>backends =
     [\<lparr>URL = ''http://a'', Proxy = NewSingleHostReverseProxy (), Alive = False\<rparr>,
      \<lparr>URL = ''http://b'', Proxy = NewSingleHostReverseProxy (), Alive = False\<rparr>,
      \<lparr>URL = ''http://c'', Proxy = NewSingleHostReverseProxy (), Alive = False\<rparr>],
    current = 1\<rparr>)) = [False, False, False] \<and>
   getNextBackend_times 3 (\<lparr>backends =
     [\<lparr>URL = ''http://a'', Proxy = NewSingleHostReverseProxy (), Alive = False\<rparr>,
      \<lparr>URL = ''http://b'', Proxy = NewSingleHostReverseProxy (), Alive = False\<rparr>,
      \<lparr>URL = ''http://c'', Proxy = NewSingleHostReverseProxy (), Alive = False\<rparr>],
    current = 1\<rparr>)
     = ([Inr None, Inr None, Inr None], \<lparr>backends =
     [\<lparr>URL = ''http://a'', Proxy = NewSingleHostReverseProxy (), Alive = False\<rparr>,
      \<lparr>URL = ''http://b'', Proxy = NewSingleHostReverseProxy (), Alive = False\<rparr>,
      \<lparr>URL = ''http://c'', Proxy = NewSingleHostReverseProxy (), Alive = False\<rparr>],
    current = 1\<rparr>)"
proof -
  let ?lb = "\<lparr>backends =
     [\<lparr>URL = ''http://a'', Proxy = NewSingleHostReverseProxy (), Alive = False\<rparr>,
      \<lparr>URL = ''http://b'', Proxy = NewSingleHostReverseProxy (), Alive = False\<rparr>,
      \<lparr>URL = ''http://c'', Proxy = NewSingleHostReverseProxy (), Alive = False\<rparr>],
    current = 1\<rparr>"
  have h1: "\<forall>b \<in> set (backends ?lb). \<not> Alive b" by simp
  have h2: "0 \<le> current ?lb" by simp
  have h3: "current ?lb + int (length (backends ?lb)) \<le> 2 ^ 63" by simp
  from all_dead_returns_nil [OF h1 h2 h3, of 3] show ?thesis
    by (simp add: numeral_3_eq_3)
qed

text \<open>
  Claim C4. \<^verbatim>\<open>NewLoadBalancer\<close> starts the cursor at 0. In a pool of at least one
  backend (and of a length that a Go \<^verbatim>\<open>int\<close> can hold) whose cursor is an index of the
  pool, the cursor is still an index of the pool after a call of \<^verbatim>\<open>getNextBackend\<close>,
  whatever it returns, and after a call of \<^verbatim>\<open>SetAlive\<close> on any backend.
\<close>

theorem cursor_invariant:
  "current (fst (NewLoadBalancer url_Parse backendURLs)) = 0 \<and>
   (1 \<le> length (backends lb) \<and> cursor_in_range lb \<and> int (length (backends lb)) < 2 ^ 63 \<longrightarrow>
      cursor_in_range (snd (getNextBackend lb)) \<and>
      (\<forall>k < length (backends lb). \<forall>alive. cursor_in_range (SetAlive_at k alive lb)))"
proof -
  have "current (fst (NewLoadBalancer url_Parse backendURLs)) = 0"
    by (simp add: NewLoadBalancer_def NewLoadBalancer_current_gen)
  moreover have "cursor_in_range (snd (getNextBackend lb))"
    if "cursor_in_range lb" "int (length (backends lb)) < 2 ^ 63"
    unfolding getNextBackend_def using that by (rule loop_cursor_in_range)
  moreover have "cursor_in_range (SetAlive_at k alive lb)" if "cursor_in_range lb" for k alive
    using that by (simp add: cursor_in_range_def SetAlive_at_def)
  ultimately show ?thesis by blast
qed

theorem cursor_invariant_witness:
  "current (fst (NewLoadBalancer (map_of [(''http://a'', ())]) [''http://a'', '':b''])) = 0 \<and>
   cursor_in_range (\<lparr>backends =
     [\<lparr>URL = ''http://a'', Proxy = NewSingleHostReverseProxy (), Alive = True\<rparr>,
      \<lparr>URL = ''http://b'', Proxy = NewSingleHostReverseProxy (), Alive = False\<rparr>,
      \<lparr>URL = ''http://c'', Proxy = NewSingleHostReverseProxy (), Alive = True\<rparr>],
    current = 2\<rparr>) \<and>
   cursor_in_range (snd (getNextBackend (\<lparr>backends =
     [\<lparr>URL = ''http://a'', Proxy = NewSingleHostReverseProxy (), Alive = True\<rparr>,
      \<lparr>URL = ''http://b'', Proxy = NewSingleHostReverseProxy (), Alive = False\<rparr>,
      \<lparr>URL = ''http://c'', Proxy = NewSingleHostReverseProxy (), Alive = True\<rparr>],
    current = 2\<rparr>))) \<and>
   cursor_in_range (SetAlive_at 1 True (\<lparr>backends =
     [\<lparr>URL = ''http://a'', Proxy = NewSingleHostReverseProxy (), Alive = True\<rparr>,
      \<lparr>URL = ''http://b'', Proxy = NewSingleHostReverseProxy (), Alive = False\<rparr>,
      \<lparr>URL = ''http://c'', Proxy = NewSingleHostReverseProxy (), Alive = True\<rparr>],
    current = 2\<rparr>))"
proof -
  let ?lb = "\<lparr>backends =
     [\<lparr>URL = ''http://a'', Proxy = NewSingleHostReverseProxy (), Alive = True\<rparr>,
      \<lparr>URL = ''http://b'', Proxy = NewSingleHostReverseProxy (), Alive = False\<rparr>,
      \<lparr>URL = ''http://c'', Proxy = NewSingleHostReverseProxy (), Alive = True\<rparr>],
    current = 2\<rparr>"
  have h1: "1 \<le> length (backends ?lb)" by simp
  have h2: "cursor_in_range ?lb" by (simp add: cursor_in_range_def)
  have h3: "int (length (backends ?lb)) < 2 ^ 63" by simp
  have h4: "(1::nat) < length (backends ?lb)" by simp
  from cursor_invariant [of "map_of [(''http://a'', ())]" "[''http://a'', '':b'']" ?lb]
    h1 h2 h3 h4 show ?thesis by blast
qed

text \<open>
  Claim C10. On a pool with no backend, \<^verbatim>\<open>getNextBackend\<close> returns \<^verbatim>\<open>nil\<close>: the loop
  body never runs, so no remainder modulo zero is taken and no slot is read (the result
  is a returned value, not a panic), and the pool is unchanged.
\<close>

theorem getNextBackend_empty:
  "backends lb = [] \<Longrightarrow> getNextBackend lb = (Inr None, lb)"
  by (simp add: getNextBackend_def getNextBackend_loop.simps)

theorem getNextBackend_empty_witness:
  "backends \<lparr>backends = [], current = 0\<rparr> = ([] :: unit Backend list) \<and>
   getNextBackend \<lparr>backends = ([] :: unit Backend list), current = 0\<rparr>
     = (Inr None, \<lparr>backends = [], current = 0\<rparr>)"
  using getNextBackend_empty [of "\<lparr>backends = ([] :: unit Backend list), current = 0\<rparr>"]
  by simp

section \<open>Properties of construction and start-up\<close>

text \<open>
  Claim C5, as the program has it. An address that does not parse does not stop the
  start-up: with both environment variables set, \<^verbatim>\<open>main\<close> ends in the fatal error
  "no valid backend servers" exactly when none of the configured addresses parses, and
  otherwise goes on with the pool of the addresses that parse, in configured order, all
  alive, the cursor at 0.
\<close>

theorem startup_skips_unparsable:
  assumes "backendsEnv \<noteq> []" and "Port \<noteq> []"
  shows "main_startup url_Parse Port backendsEnv =
           (if list_all (\<lambda>u. url_Parse u = None) (strings_Split backendsEnv CHR '','')
            then Inl Fatal_NoValidBackends
            else Inr \<lparr>backends =
                        List.map_filter (new_backend url_Parse)
                          (strings_Split backendsEnv CHR '',''),
                      current = 0\<rparr>)"
  using assms
  by (simp add: main_startup_def NewLoadBalancer_backends map_filter_empty_iff new_backend_def)

theorem startup_skips_unparsable_witness:
  "main_startup (map_of [(''http://a'', ''a''), (''http://c'', ''c'')]) ''8080'' ''http://a,:b,http://c''
     = Inr \<lparr>backends =
               [\<lparr>URL = ''http://a'', Proxy = NewSingleHostReverseProxy ''a'', Alive = True\<rparr>,
                \<lparr>URL = ''http://c'', Proxy = NewSingleHostReverseProxy ''c'', Alive = True\<rparr>],
             current = 0\<rparr> \<and>
   main_startup (map_of [(''http://a'', ''a''), (''http://c'', ''c'')]) ''8080'' '':b,:d''
     = Inl Fatal_NoValidBackends"
proof -
  let ?parse = "map_of [(''http://a'', ''a''), (''http://c'', ''c'')]"
  have p: "''8080'' \<noteq> []" by simp
  have e1: "''http://a,:b,http://c'' \<noteq> []" by simp
  have e2: "'':b,:d'' \<noteq> []" by simp
  have s1: "strings_Split ''http://a,:b,http://c'' CHR '','' = [''http://a'', '':b'', ''http://c'']"
    by simp
  have s2: "strings_Split '':b,:d'' CHR '','' = ['':b'', '':d'']"
    by simp
  show ?thesis
    using startup_skips_unparsable [OF e1 p, of ?parse]
      startup_skips_unparsable [OF e2 p, of ?parse]
    unfolding s1 s2 by (simp add: List.map_filter_simps new_backend_def)
qed

text \<open>
  Counterexample to Claim C5 as the specification states it: the second of the two
  configured addresses does not parse, and \<^verbatim>\<open>main\<close> does not end in a fatal error but
  goes on to serve with the first address alone.
\<close>

theorem startup_with_unparsable_address:
  "map_of [(''http://localhost:8081'', ''localhost:8081'')] '':8082'' = None \<and>
   strings_Split ''http://localhost:8081,:8082'' CHR '','' = [''http://localhost:8081'', '':8082''] \<and>
   main_startup (map_of [(''http://localhost:8081'', ''localhost:8081'')])
       ''8080'' ''http://localhost:8081,:8082''
     = Inr \<lparr>backends =
               [\<lparr>URL = ''http://localhost:8081'',
                 Proxy = NewSingleHostReverseProxy ''localhost:8081'', Alive = True\<rparr>],
             current = 0\<rparr>"
  by (simp add: main_startup_def NewLoadBalancer_def NewLoadBalancer_step_def)

section \<open>Properties of the health check\<close>

text \<open>
  Claim C6, as the program has it. After a cycle of \<^verbatim>\<open>healthCheck\<close> the backend of
  slot \<open>k\<close> is alive if and only if the probe sent to it in this cycle came back with
  the status 200, \<^verbatim>\<open>http.StatusOK\<close>: a transport error and every other status, the
  other statuses of the success class 2xx among them, leave it not alive. The right-hand
  side does not mention the flags before the cycle. Addresses, proxies and the cursor
  are unchanged.
\<close>

theorem healthCheck_liveness:
  "map Alive (backends (snd (healthCheck http_Get lb))) =
     map (\<lambda>k. http_Get k = Response StatusOK) [0..<length (backends lb)] \<and>
   map URL (backends (snd (healthCheck http_Get lb))) = map URL (backends lb) \<and>
   map Proxy (backends (snd (healthCheck http_Get lb))) = map Proxy (backends lb) \<and>
   current (snd (healthCheck http_Get lb)) = current lb"
  using healthCheck_loop_Alive [of http_Get 0 "backends lb" 0]
    healthCheck_loop_URL [of http_Get 0 "backends lb" 0]
  by (simp add: healthCheck_def split_beta Let_def)

theorem healthCheck_liveness_witness:
  "map Alive (backends (snd (healthCheck ((!) [Response 200, TransportError, Response 500])
      (\<lparr>backends =
     [\<lparr>URL = ''http://a'', Proxy = NewSingleHostReverseProxy (), Alive = False\<rparr>,
      \<lparr>URL = ''http://b'', Proxy = NewSingleHostReverseProxy (), Alive = True\<rparr>,
      \<lparr>URL = ''http://c'', Proxy = NewSingleHostReverseProxy (), Alive = True\<rparr>],
    current = 0\<rparr>)))) = [True, False, False]"
proof -
  let ?lb = "\<lparr>backends =
     [\<lparr>URL = ''http://a'', Proxy = NewSingleHostReverseProxy (), Alive = False\<rparr>,
      \<lparr>URL = ''http://b'', Proxy = NewSingleHostReverseProxy (), Alive = True\<rparr>,
      \<lparr>URL = ''http://c'', Proxy = NewSingleHostReverseProxy (), Alive = True\<rparr>],
    current = 0\<rparr>"
  let ?get = "(!) [Response 200, TransportError, Response 500]"
  have len: "length (backends ?lb) = 3" by simp
  from healthCheck_liveness [of ?get ?lb, THEN conjunct1, unfolded len]
  show ?thesis by (simp add: upt_rec StatusOK_def)
qed

text \<open>
  Counterexample to Claim C6 as the specification states it: a response with the
  success status 204 (No Content) marks a backend that was alive as not alive, since
  line 154 compares the status with \<^verbatim>\<open>http.StatusOK\<close> alone.
\<close>

theorem non_200_success_status_marks_not_alive:
  "(200::int) \<le> 204 \<and> (204::int) < 300 \<and>
   map Alive (backends (snd (healthCheck ((!) [Response 204])
     \<lparr>backends = [\<lparr>URL = ''http://a'', Proxy = NewSingleHostReverseProxy (), Alive = True\<rparr>],
      current = 0\<rparr>))) = [False]"
  by (simp add: healthCheck_def healthCheck_step_def StatusOK_def SetAlive_def IsAlive_def)

text \<open>
  Claim C7. The loop body run for a backend whose probe succeeds logs exactly one
  recovery line if the backend was not alive and none if it was alive; over a whole
  cycle, the recovery lines logged are, in pool order, one for every slot whose probe
  succeeded and whose backend was not alive before, and no other.
\<close>

theorem healthCheck_recovery_events:
  "filter is_recovery (fst (healthCheck_step (Response StatusOK) b aliveCount)) =
     (if Alive b then [] else [Info_BackendRecovered (URL b)]) \<and>
   filter is_recovery (fst (healthCheck http_Get lb)) =
     map (\<lambda>(k, b). Info_BackendRecovered (URL b))
       (filter (\<lambda>(k, b). http_Get k = Response StatusOK \<and> \<not> Alive b)
          (enumerate 0 (backends lb)))"
  using healthCheck_loop_recovery [of http_Get 0 "backends lb" 0]
    healthCheck_step_recovery [of "Response StatusOK" b aliveCount]
  by (simp add: healthCheck_def split_beta Let_def is_recovery_def)

theorem healthCheck_recovery_events_witness:
  "filter is_recovery (fst (healthCheck ((!) [Response 200, Response 200, TransportError])
      (\<lparr>backends =
     [\<lparr>URL = ''http://a'', Proxy = NewSingleHostReverseProxy (), Alive = False\<rparr>,
      \<lparr>URL = ''http://b'', Proxy = NewSingleHostReverseProxy (), Alive = True\<rparr>,
      \<lparr>URL = ''http://c'', Proxy = NewSingleHostReverseProxy (), Alive = False\<rparr>],
    current = 0\<rparr>))) = [Info_BackendRecovered ''http://a'']"
proof -
  let ?lb = "\<lparr>backends =
     [\<lparr>URL = ''http://a'', Proxy = NewSingleHostReverseProxy (), Alive = False\<rparr>,
      \<lparr>URL = ''http://b'', Proxy = NewSingleHostReverseProxy (), Alive = True\<rparr>,
      \<lparr>URL = ''http://c'', Proxy = NewSingleHostReverseProxy (), Alive = False\<rparr>],
    current = 0\<rparr>"
  let ?get = "(!) [Response 200, Response 200, TransportError]"
  from healthCheck_recovery_events [of _ _ ?get ?lb, THEN conjunct2]
  show ?thesis by (simp add: StatusOK_def)
qed

section \<open>Properties of the request handler\<close>

text \<open>
  Claim C8. When \<^verbatim>\<open>getNextBackend\<close> returns \<^verbatim>\<open>nil\<close>, \<^verbatim>\<open>ServeHTTP\<close> logs the error and
  answers through \<^verbatim>\<open>http.Error\<close> with status 503 and a one-line message, and calls no
  proxy. When it returns the backend of slot \<open>k\<close>, the request is handed to the proxy of
  that backend, and to no other.
\<close>

theorem ServeHTTP_dispatch:
  "(getNextBackend lb = (Inr None, lb') \<longrightarrow>
      ServeHTTP r lb =
        (Inr [Log (Error_AllBackendsDown (Method r) (Path r)),
              http_Error ''Service unavailable - all backends are down'' 503], lb') \<and>
      forwards (projr (fst (ServeHTTP r lb))) = []) \<and>
   (getNextBackend lb = (Inr (Some k), lb') \<longrightarrow>
      ServeHTTP r lb =
        (Inr [Log (Info_ForwardingRequest (URL (backends lb ! k)) (Method r) (Path r)),
              Proxy_ServeHTTP (Proxy (backends lb ! k)) r,
              Log (Info_RequestCompleted (URL (backends lb ! k)))], lb') \<and>
      forwards (projr (fst (ServeHTTP r lb))) = [(Proxy (backends lb ! k), r)])"
  using getNextBackend_backends [of lb]
  by (auto simp: ServeHTTP_def forwards_def StatusServiceUnavailable_def Let_def)

theorem ServeHTTP_dispatch_witness:
  "ServeHTTP \<lparr>Method = ''GET'', Path = ''/''\<rparr> (\<lparr>backends =
     [\<lparr>URL = ''http://a'', Proxy = NewSingleHostReverseProxy (), Alive = False\<rparr>,
      \<lparr>URL = ''http://b'', Proxy = NewSingleHostReverseProxy (), Alive = False\<rparr>,
      \<lparr>URL = ''http://c'', Proxy = NewSingleHostReverseProxy (), Alive = False\<rparr>],
    current = 0\<rparr>) =
     (Inr [Log (Error_AllBackendsDown ''GET'' ''/''),
           http_Error ''Service unavailable - all backends are down'' 503],
      \<lparr>backends =
     [\<lparr>URL = ''http://a'', Proxy = NewSingleHostReverseProxy (), Alive = False\<rparr>,
      \<lparr>URL = ''http://b'', Proxy = NewSingleHostReverseProxy (), Alive = False\<rparr>,
      \<lparr>URL = ''http://c'', Proxy = NewSingleHostReverseProxy (), Alive = False\<rparr>],
    current = 0\<rparr>) \<and>
   forwards (projr (fst (ServeHTTP \<lparr>Method = ''GET'', Path = ''/''\<rparr>
      (\<lparr>backends =
     [\<lparr>URL = ''http://a'', Proxy = NewSingleHostReverseProxy (), Alive = True\<rparr>,
      \<lparr>URL = ''http://b'', Proxy = NewSingleHostReverseProxy (), Alive = False\<rparr>,
      \<lparr>URL = ''http://c'', Proxy = NewSingleHostReverseProxy (), Alive = True\<rparr>],
    current = 1\<rparr>)))) =
     [(NewSingleHostReverseProxy (), \<lparr>Method = ''GET'', Path = ''/''\<rparr>)]"
proof -
  let ?r = "\<lparr>Method = ''GET'', Path = ''/''\<rparr>"
  let ?dead = "\<lparr>backends =
     [\<lparr>URL = ''http://a'', Proxy = NewSingleHostReverseProxy (), Alive = False\<rparr>,
      \<lparr>URL = ''http://b'', Proxy = NewSingleHostReverseProxy (), Alive = False\<rparr>,
      \<lparr>URL = ''http://c'', Proxy = NewSingleHostReverseProxy (), Alive = False\<rparr>],
    current = 0\<rparr>"
  let ?lb = "\<lparr>backends =
     [\<lparr>URL = ''http://a'', Proxy = NewSingleHostReverseProxy (), Alive = True\<rparr>,
      \<lparr>URL = ''http://b'', Proxy = NewSingleHostReverseProxy (), Alive = False\<rparr>,
      \<lparr>URL = ''http://c'', Proxy = NewSingleHostReverseProxy (), Alive = True\<rparr>],
    current = 1\<rparr>"
  have none: "getNextBackend ?dead = (Inr None, ?dead)"
    by (simp add: getNextBackend_def getNextBackend_loop.simps go_rem_def go_add_def
          go_int_def index_def IsAlive_def signed_modulo_int_def)
  have some: "getNextBackend ?lb = (Inr (Some 2), ?lb\<lparr>current := 0\<rparr>)"
    by (simp add: getNextBackend_def getNextBackend_loop.simps go_rem_def go_add_def
          go_int_def index_def IsAlive_def signed_modulo_int_def)
  from ServeHTTP_dispatch [where lb = ?dead and lb' = ?dead and r = ?r,
        THEN conjunct1, rule_format, OF none]
    ServeHTTP_dispatch [where lb = ?lb and lb' = "?lb\<lparr>current := 0\<rparr>" and r = ?r and k = 2,
        THEN conjunct2, rule_format, OF some]
  show ?thesis by (simp add: forwards_def)
qed

section \<open>Properties of the start of the service\<close>




end
